theory Spec2Isabelle
  imports Main "HOL-Library.Word"
begin

section \<open>The trigger registry and event dispatch of mysql-events\<close>

text \<open>
  The repository holds three variants of the class \<open>MysqlEvent\<close>. They agree on
  \<open>add\<close>, \<open>stop\<close>, \<open>start\<close>, \<open>remove\<close> and \<open>getTriggers\<close>. They differ in two places:
  \<^item> \<open>checkExpression\<close>: the first and second variant substitute \<open>*\<close> for an empty part,
    the third returns every two-part expression as it is (\<open>checkExpression_3\<close>);
  \<^item> \<open>getManyEvents\<close>: the first and third variant mutate one event object for every row,
    the second builds a fresh object per row (\<open>getManyEvents_2\<close>).
  Unsuffixed names are the first variant's.

  JavaScript objects are passed by reference. Trigger objects live in a heap
  (\<open>heap\<close>, from references to objects) and the registry maps hold references; event
  objects live in a store that grows by allocation. A \<open>throw\<close> is the left summand of
  a result.
\<close>

subsection \<open>Enumerations and errors\<close>

datatype STATEMENTS = INSERT | UPDATE | DELETE | ALL'

text \<open>The string value of each member of the enum (first and second variant).\<close>

fun STATEMENTS_value :: "STATEMENTS \<Rightarrow> string" where
  "STATEMENTS_value INSERT = ''INSERT''"
| "STATEMENTS_value UPDATE = ''UPDATE''"
| "STATEMENTS_value DELETE = ''DELETE''"
| "STATEMENTS_value ALL' = ''ALL''"

text \<open>\<open>ACTIONS[name]\<close>: the action of a binlog event name, \<open>undefined\<close> for any other.\<close>

definition ACTIONS :: "string \<Rightarrow> string option" where
  "ACTIONS name =
     (if name = ''writerows'' then Some (STATEMENTS_value INSERT)
      else if name = ''updaterows'' then Some (STATEMENTS_value UPDATE)
      else if name = ''deleterows'' then Some (STATEMENTS_value DELETE)
      else None)"

text \<open>
  The two errors the class throws itself, and the \<open>TypeError\<close> of the runtime when a
  property of \<open>undefined\<close> is read or a value that is no function is called.
\<close>

datatype error = InvalidHandler | InvalidExpression | TypeError

subsection \<open>Strings\<close>

text \<open>\<open>s.split(c)\<close> for a one-character separator: never empty, \<open>''''.split(c) = ['''']\<close>.\<close>

fun split :: "char \<Rightarrow> string \<Rightarrow> string list" where
  "split c [] = [[]]"
| "split c (x # xs) =
     (if x = c then [] # split c xs
      else (case split c xs of
              [] \<Rightarrow> [[x]]
            | p # ps \<Rightarrow> (x # p) # ps))"

subsection \<open>Expressions\<close>

text \<open>
  \<open>checkExpression\<close> of the first (and second) variant. The argument is optional:
  \<open>None\<close> is \<open>undefined\<close>, which is falsy like the empty string.
\<close>

definition checkExpression :: "string option \<Rightarrow> error + string" where
  "checkExpression expression =
     (case expression of
        None \<Rightarrow> Inr ''*''
      | Some e \<Rightarrow>
          if e = [] \<or> e = ''*'' \<or> e = ''*.*'' then Inr ''*''
          else
            let parts = split CHR ''.'' e in
            if length parts \<noteq> 2 then Inl InvalidExpression
            else if parts ! 0 = [] then Inr (''*.'' @ parts ! 1)
            else if parts ! 1 = [] then Inr (parts ! 0 @ ''.*'')
            else Inr e)"

text \<open>\<open>checkExpression\<close> of the third variant: no substitution for an empty part.\<close>

definition checkExpression_3 :: "string option \<Rightarrow> error + string" where
  "checkExpression_3 expression =
     (case expression of
        None \<Rightarrow> Inr ''*''
      | Some e \<Rightarrow>
          if e = [] \<or> e = ''*'' \<or> e = ''*.*'' then Inr ''*''
          else if length (split CHR ''.'' e) \<noteq> 2 then Inl InvalidExpression
          else Inr e)"

subsection \<open>Triggers and the registry\<close>

type_synonym ref = nat

text \<open>
  \<open>ITrigger\<close>: every field but the handler is optional. The handler is \<open>Some f\<close> when it
  is a function (\<open>f\<close> names it) and \<open>None\<close> when \<open>typeof handler\<close> is not \<open>'function'\<close>.
\<close>

record ITrigger =
  handler :: "nat option"
  tag :: "string option"
  expression :: "string option"
  statement :: "STATEMENTS option"
  enable :: "bool option"

text \<open>
  The instance: the two maps of the class, and the heap of trigger objects its callers
  and its \<open>triggers\<close> map share.
\<close>

record state =
  triggers :: "string \<rightharpoonup> ref"
  tags :: "string \<rightharpoonup> string"
  heap :: "ref \<Rightarrow> ITrigger"

text \<open>
  \<open>getRandomTag\<close>, from the text \<open>Math.random().toString(36)\<close> gave: the characters
  outside the class \<open>[a-z|0-9]\<close> are removed and seven are kept.
\<close>

definition getRandomTag :: "string \<Rightarrow> string" where
  "getRandomTag r36 =
     take 7 (filter (\<lambda>c. c \<in> set ''abcdefghijklmnopqrstuvwxyz|0123456789'') r36)"

text \<open>What \<open>add\<close> returns: \<open>undefined\<close> (no trigger given), \<open>null\<close> (rejected) or the tag.\<close>

datatype add_result = RetUndefined | RetNull | RetTag string

text \<open>\<open>a || b\<close> on an optional string: \<open>undefined\<close> and the empty string are falsy.\<close>

definition or_else :: "string option \<Rightarrow> string \<Rightarrow> string" where
  "or_else a b = (case a of None \<Rightarrow> b | Some s \<Rightarrow> if s = [] then b else s)"

text \<open>
  \<open>add\<close>. The four assignments write to the caller's object, in the heap, before the
  maps are looked at; \<open>checkExpression\<close> may throw after the first three.
\<close>

definition add :: "string \<Rightarrow> ref option \<Rightarrow> state \<Rightarrow> (error + add_result) \<times> state" where
  "add r36 trg st =
     (case trg of
        None \<Rightarrow> (Inr RetUndefined, st)
      | Some r \<Rightarrow>
          if handler (heap st r) = None then (Inl InvalidHandler, st)
          else
            let t1 = (heap st r)\<lparr>enable := Some True\<rparr>;
                t2 = t1\<lparr>statement := Some (case statement t1 of None \<Rightarrow> ALL' | Some s \<Rightarrow> s)\<rparr>;
                tg = or_else (tag t2) (getRandomTag r36);
                t3 = t2\<lparr>tag := Some tg\<rparr>
            in case checkExpression (expression t3) of
                 Inl e \<Rightarrow> (Inl e, st\<lparr>heap := (heap st)(r := t3)\<rparr>)
               | Inr ex \<Rightarrow>
                   let st4 = st\<lparr>heap := (heap st)(r := t3\<lparr>expression := Some ex\<rparr>)\<rparr> in
                   if tg \<in> dom (triggers st4) \<or> ex \<in> dom (tags st4) then (Inr RetNull, st4)
                   else (Inr (RetTag tg),
                         st4\<lparr>tags := (tags st4)(ex \<mapsto> tg),
                             triggers := (triggers st4)(tg \<mapsto> r)\<rparr>))"

definition stop :: "string \<Rightarrow> state \<Rightarrow> state" where
  "stop tg st =
     (case triggers st tg of
        None \<Rightarrow> st
      | Some r \<Rightarrow> st\<lparr>heap := (heap st)(r := (heap st r)\<lparr>enable := Some False\<rparr>)\<rparr>)"

definition start :: "string \<Rightarrow> state \<Rightarrow> state" where
  "start tg st =
     (case triggers st tg of
        None \<Rightarrow> st
      | Some r \<Rightarrow> st\<lparr>heap := (heap st)(r := (heap st r)\<lparr>enable := Some True\<rparr>)\<rparr>)"

definition remove :: "string \<Rightarrow> state \<Rightarrow> state" where
  "remove tg st = st\<lparr>triggers := (triggers st)(tg := None)\<rparr>"

subsection \<open>Matching\<close>

text \<open>
  The body of \<open>pathOptions.forEach\<close> in \<open>getTriggers\<close>, with the list built so far. An
  empty tag is falsy and skipped like a missing one; destructuring a missing trigger
  throws.
\<close>

fun getTriggers_forEach ::
  "state \<Rightarrow> string \<Rightarrow> string list \<Rightarrow> ref list \<Rightarrow> error + ref list" where
  "getTriggers_forEach st action [] trgs = Inr trgs"
| "getTriggers_forEach st action (exp # exps) trgs =
     (case tags st exp of
        None \<Rightarrow> getTriggers_forEach st action exps trgs
      | Some tg \<Rightarrow>
          if tg = [] then getTriggers_forEach st action exps trgs
          else
            (case triggers st tg of
               None \<Rightarrow> Inl TypeError
             | Some r \<Rightarrow>
                 if (statement (heap st r) = Some ALL'
                      \<or> map_option STATEMENTS_value (statement (heap st r)) = Some action)
                    \<and> enable (heap st r) = Some True
                 then getTriggers_forEach st action exps (trgs @ [r])
                 else getTriggers_forEach st action exps trgs))"

text \<open>
  \<open>const [db, table] = path.split('.')\<close>: the first part always exists; a missing
  second part is \<open>undefined\<close>, which a template literal prints as that word.
\<close>

definition pathOptions :: "string \<Rightarrow> string list" where
  "pathOptions path =
     (let parts = split CHR ''.'' path;
          db = (case parts of [] \<Rightarrow> [] | d # _ \<Rightarrow> d);
          table = (case parts of _ # t # _ \<Rightarrow> t | _ \<Rightarrow> ''undefined'')
      in [''*'', db @ ''.*'', ''*.'' @ table, db @ ''.'' @ table])"

definition getTriggers :: "state \<Rightarrow> string \<Rightarrow> string \<Rightarrow> error + ref list" where
  "getTriggers st path action = getTriggers_forEach st action (pathOptions path) []"

subsection \<open>Rows and events\<close>

text \<open>
  A column value: \<open>undefined\<close>, \<open>null\<close>, a boolean, a string, a number, or any other
  value. \<open>JNum\<close> holds the integers of 54 bits in two's complement, from \<open>- 2 ^ 53\<close> to
  \<open>2 ^ 53 - 1\<close>: each is a number of the runtime, and \<open>String\<close> prints it in decimal
  digits. \<open>JOther\<close> holds every other value (a number that is not such an integer, a
  \<open>Date\<close>, a \<open>Buffer\<close>, a function, an object) as the text \<open>String\<close> gives for it.
\<close>

datatype jsval = JUndefined | JNull | JBool bool | JNum "54 word" | JStr string | JOther string

text \<open>An object of column values: its own properties in the order \<open>for ... in\<close> visits them.\<close>

type_synonym columns = "(string \<times> jsval) list"

text \<open>
  A row as the binlog reader delivers it: the columns of the row for \<open>writerows\<close> and
  \<open>deleterows\<close>, an object \<open>{before, after}\<close> of two such for \<open>updaterows\<close>. A row of
  columns has no property \<open>before\<close> or \<open>after\<close>: reading one gives \<open>undefined\<close>.
\<close>

datatype row = Columns columns | BeforeAfter columns columns

datatype IDataType = Null | Undefined | Object row

record IData =
  old :: IDataType
  new :: IDataType

record IEvent =
  action :: string
  timestamp :: int
  database :: string
  table :: "string option"
  changedColumns :: "string list"
  data :: IData

fun digit :: "nat \<Rightarrow> char" where
  "digit n = ''0123456789'' ! (n mod 10)"

fun digits :: "nat \<Rightarrow> string" where
  "digits n = (if n < 10 then [digit n] else digits (n div 10) @ [digit n])"

text \<open>\<open>String(v)\<close> on a column value.\<close>

fun js_String :: "jsval \<Rightarrow> string" where
  "js_String JUndefined = ''undefined''"
| "js_String JNull = ''null''"
| "js_String (JBool b) = (if b then ''true'' else ''false'')"
| "js_String (JNum n) =
     (if sint n < 0 then CHR ''-'' # digits (nat (- sint n)) else digits (nat (sint n)))"
| "js_String (JStr s) = s"
| "js_String (JOther s) = s"

text \<open>
  What a key gives that an object of columns has not itself: the members the object
  inherits from \<open>Object.prototype\<close>, which are functions but for \<open>__proto__\<close>, and
  \<open>undefined\<close> for every other key.
\<close>

definition Object_prototype :: "string \<Rightarrow> jsval" where
  "Object_prototype key =
     (if key = ''constructor'' then JOther ''function Object() { [native code] }''
      else if key \<in> set [''hasOwnProperty'', ''isPrototypeOf'', ''propertyIsEnumerable'',
                         ''toString'', ''valueOf'', ''toLocaleString'', ''__defineGetter__'',
                         ''__defineSetter__'', ''__lookupGetter__'', ''__lookupSetter__'']
      then JOther (''function '' @ key @ ''() { [native code] }'')
      else if key = ''__proto__'' then JOther ''[object Object]''
      else JUndefined)"

text \<open>\<open>obj[key]\<close>: the object's own property, or else what it inherits.\<close>

definition getProp :: "columns \<Rightarrow> string \<Rightarrow> jsval" where
  "getProp obj key = (case map_of obj key of None \<Rightarrow> Object_prototype key | Some v \<Rightarrow> v)"

text \<open>\<open>Set.add\<close>, the set kept in insertion order as \<open>Array.from\<close> reads it.\<close>

definition Set_add :: "string list \<Rightarrow> string \<Rightarrow> string list" where
  "Set_add s key = (if key \<in> set s then s else s @ [key])"

text \<open>The loop \<open>for (const key in row.before)\<close> over the keys left, with the set so far.\<close>

fun changedColumns_for :: "columns \<Rightarrow> columns \<Rightarrow> string list \<Rightarrow> string list \<Rightarrow> string list" where
  "changedColumns_for before after [] changed = changed"
| "changedColumns_for before after (key # keys) changed =
     changedColumns_for before after keys
       (if js_String (getProp before key) \<noteq> js_String (getProp after key)
        then Set_add changed key else changed)"

text \<open>
  What one iteration of the loop over the rows does to the event object, before the
  object is pushed: the three \<open>if\<close> statements on the action, one after the other.
\<close>

definition eventRow :: "string \<Rightarrow> row \<Rightarrow> IEvent \<Rightarrow> IEvent" where
  "eventRow act row event =
     (let e1 = (if act = STATEMENTS_value INSERT
                then event\<lparr>data := (data event)\<lparr>new := Object row\<rparr>\<rparr> else event);
          e2 = (if act = STATEMENTS_value DELETE
                then e1\<lparr>data := (data e1)\<lparr>old := Object row\<rparr>\<rparr> else e1)
      in if act = STATEMENTS_value UPDATE
         then (case row of
                 BeforeAfter before after \<Rightarrow>
                   e2\<lparr>data := (data e2)\<lparr>old := Object (Columns before),
                                         new := Object (Columns after)\<rparr>,
                      changedColumns := changedColumns_for before after (map fst before) []\<rparr>
               | Columns c \<Rightarrow>
                   e2\<lparr>data := (data e2)\<lparr>old := Undefined, new := Undefined\<rparr>,
                      changedColumns := []\<rparr>)
         else e2)"

text \<open>
  The object literal of \<open>getEventObject\<close> and \<open>getEventTemplate\<close>, and its allocation in
  the store of event objects: the new reference is the next free index.
\<close>

definition newEvent :: "string \<Rightarrow> string \<Rightarrow> int \<Rightarrow> IEvent" where
  "newEvent act path ts =
     (let parts = split CHR ''.'' path in
      \<lparr>action = act, timestamp = ts,
       database = (case parts of [] \<Rightarrow> [] | d # _ \<Rightarrow> d),
       table = (case parts of _ # t # _ \<Rightarrow> Some t | _ \<Rightarrow> None),
       changedColumns = [],
       data = \<lparr>old = Null, new = Null\<rparr>\<rparr>)"

definition getEventObject :: "string \<Rightarrow> string \<Rightarrow> int \<Rightarrow> IEvent list \<Rightarrow> ref \<times> IEvent list" where
  "getEventObject act path ts es = (length es, es @ [newEvent act path ts])"

text \<open>
  \<open>getManyEvents\<close> of the first (and third) variant: every row updates the one object
  \<open>event\<close> refers to and pushes the same reference.
\<close>

fun getManyEvents_forEach ::
  "ref \<Rightarrow> string \<Rightarrow> row list \<Rightarrow> IEvent list \<Rightarrow> ref list \<Rightarrow> ref list \<times> IEvent list" where
  "getManyEvents_forEach event act [] es payloads = (payloads, es)"
| "getManyEvents_forEach event act (row # rows) es payloads =
     getManyEvents_forEach event act rows
       (es[event := eventRow act row (es ! event)]) (payloads @ [event])"

definition getManyEvents ::
  "ref \<Rightarrow> string \<Rightarrow> row list \<Rightarrow> IEvent list \<Rightarrow> ref list \<times> IEvent list" where
  "getManyEvents event act rows es = getManyEvents_forEach event act rows es []"

text \<open>\<open>getManyEvents\<close> of the second variant: a new object from the template for every row.\<close>

record ITemplate =
  path :: string
  template_timestamp :: int

definition getEventTemplate :: "string \<Rightarrow> ITemplate \<Rightarrow> IEvent list \<Rightarrow> ref \<times> IEvent list" where
  "getEventTemplate act template es =
     (length es, es @ [newEvent act (path template) (template_timestamp template)])"

fun getManyEvents_2_for ::
  "string \<Rightarrow> row list \<Rightarrow> ITemplate \<Rightarrow> IEvent list \<Rightarrow> ref list \<Rightarrow> ref list \<times> IEvent list" where
  "getManyEvents_2_for act [] template es payloads = (payloads, es)"
| "getManyEvents_2_for act (row # rows) template es payloads =
     (case getEventTemplate act template es of
        (event, es1) \<Rightarrow>
          getManyEvents_2_for act rows template
            (es1[event := eventRow act row (es1 ! event)]) (payloads @ [event]))"

definition getManyEvents_2 ::
  "string \<Rightarrow> row list \<Rightarrow> ITemplate \<Rightarrow> IEvent list \<Rightarrow> ref list \<times> IEvent list" where
  "getManyEvents_2 act rows template es = getManyEvents_2_for act rows template es []"

subsection \<open>Dispatch\<close>

record tableInfo =
  parentSchema :: string
  tableName :: string

record blEvent =
  tableMap :: "nat \<rightharpoonup> tableInfo"
  tableId :: nat
  bl_timestamp :: int
  rows :: "row list"

text \<open>
  A handler is outside the class: a call is recorded as the function called and the
  event object passed, and is taken to return. Calling what is no function throws.
  \<open>events.forEach(evt => trg.handler(evt))\<close>:
\<close>

fun events_forEach :: "nat option \<Rightarrow> ref list \<Rightarrow> error + (nat \<times> ref) list" where
  "events_forEach h [] = Inr []"
| "events_forEach h (evt # evts) =
     (case h of
        None \<Rightarrow> Inl TypeError
      | Some f \<Rightarrow>
          (case events_forEach h evts of
             Inl e \<Rightarrow> Inl e
           | Inr calls \<Rightarrow> Inr ((f, evt) # calls)))"

text \<open>\<open>for (const trg of triggers)\<close>:\<close>

fun triggers_for :: "state \<Rightarrow> ref list \<Rightarrow> ref list \<Rightarrow> error + (nat \<times> ref) list" where
  "triggers_for st [] events = Inr []"
| "triggers_for st (trg # trgs) events =
     (case events_forEach (handler (heap st trg)) events of
        Inl e \<Rightarrow> Inl e
      | Inr calls \<Rightarrow>
          (case triggers_for st trgs events of
             Inl e \<Rightarrow> Inl e
           | Inr calls' \<Rightarrow> Inr (calls @ calls')))"

text \<open>
  \<open>eventHandler\<close> of the first variant, on the store of event objects: the calls made,
  in order, and the store afterwards.
\<close>

definition eventHandler ::
  "state \<Rightarrow> IEvent list \<Rightarrow> blEvent \<Rightarrow> string \<Rightarrow> error + ((nat \<times> ref) list \<times> IEvent list)" where
  "eventHandler st es ev act =
     (case tableMap ev (tableId ev) of
        None \<Rightarrow> Inl TypeError
      | Some tm \<Rightarrow>
          let p = parentSchema tm @ ''.'' @ tableName tm in
          (case getTriggers st p act of
             Inl e \<Rightarrow> Inl e
           | Inr trgs \<Rightarrow>
               if length trgs = 0 then Inr ([], es)
               else
                 (case getEventObject act p (bl_timestamp ev) es of
                    (eventObject, es1) \<Rightarrow>
                      (case getManyEvents eventObject act (rows ev) es1 of
                         (events, es2) \<Rightarrow>
                           (case triggers_for st trgs events of
                              Inl e \<Rightarrow> Inl e
                            | Inr calls \<Rightarrow> Inr (calls, es2))))))"

subsection \<open>The canonical shapes of an expression\<close>

text \<open>
  The four shapes the specification names: \<open>*\<close>; \<open>db.*\<close>, \<open>*.table\<close> and \<open>db.table\<close>
  where \<open>db\<close> and \<open>table\<close> are not empty and not \<open>*\<close>.
\<close>

definition name_part :: "string \<Rightarrow> bool" where
  "name_part x = (x \<noteq> [] \<and> x \<noteq> ''*'')"

definition canonical :: "string \<Rightarrow> bool" where
  "canonical s =
     (s = ''*'' \<or>
      (case split CHR ''.'' s of
         [db, t] \<Rightarrow>
           (name_part db \<and> t = ''*'') \<or> (db = ''*'' \<and> name_part t)
           \<or> (name_part db \<and> name_part t)
       | _ \<Rightarrow> False))"

subsection \<open>What the specification says of matching\<close>

text \<open>
  A subscription accepts an action when it is enabled and its statement is \<open>ALL\<close> or
  the action. The candidates are the four expressions of a database and a table, in
  the order of the specification; a candidate gives the subscription that owns it,
  when there is one and it accepts the action.
\<close>

definition accepts :: "ITrigger \<Rightarrow> string \<Rightarrow> bool" where
  "accepts trg act =
     (enable trg = Some True
      \<and> (statement trg = Some ALL' \<or> map_option STATEMENTS_value (statement trg) = Some act))"

definition candidates :: "string \<Rightarrow> string \<Rightarrow> string list" where
  "candidates db tbl = [''*'', db @ ''.*'', ''*.'' @ tbl, db @ ''.'' @ tbl]"

definition owner :: "state \<Rightarrow> string \<Rightarrow> string \<Rightarrow> ref list" where
  "owner st act e =
     (case tags st e of
        None \<Rightarrow> []
      | Some tg \<Rightarrow>
          (case triggers st tg of
             None \<Rightarrow> []
           | Some r \<Rightarrow> if accepts (heap st r) act then [r] else []))"

definition match_spec :: "state \<Rightarrow> string \<Rightarrow> string \<Rightarrow> string \<Rightarrow> ref list" where
  "match_spec st db tbl act = concat (map (owner st act) (candidates db tbl))"

subsection \<open>Registries used as examples\<close>

text \<open>An enabled subscription: its handler, tag, expression and statement.\<close>

definition trigger_on :: "nat \<Rightarrow> string \<Rightarrow> string \<Rightarrow> STATEMENTS \<Rightarrow> ITrigger" where
  "trigger_on f tg e s =
     \<lparr>handler = Some f, tag = Some tg, expression = Some e, statement = Some s,
      enable = Some True\<rparr>"

text \<open>One subscription, on \<open>db.t\<close>.\<close>

definition st_db_t :: state where
  "st_db_t =
     \<lparr>triggers = map_of [(''x'', 0)], tags = map_of [(''db.t'', ''x'')],
      heap = (\<lambda>_. trigger_on 10 ''x'' ''db.t'' ALL')\<rparr>"

text \<open>
  The four subscriptions of the specification's example: \<open>*\<close> for every statement,
  \<open>shop.*\<close> for updates, \<open>*.orders\<close> for inserts, \<open>shop.orders\<close> for deletes.
\<close>

definition st_shop :: state where
  "st_shop =
     \<lparr>triggers = map_of [(''t0'', 0), (''t1'', 1), (''t2'', 2), (''t3'', 3)],
      tags = map_of [(''*'', ''t0''), (''shop.*'', ''t1''), (''*.orders'', ''t2''),
                     (''shop.orders'', ''t3'')],
      heap = (\<lambda>r. if r = 0 then trigger_on 10 ''t0'' ''*'' ALL'
                  else if r = 1 then trigger_on 11 ''t1'' ''shop.*'' UPDATE
                  else if r = 2 then trigger_on 12 ''t2'' ''*.orders'' INSERT
                  else trigger_on 13 ''t3'' ''shop.orders'' DELETE)\<rparr>"

text \<open>
  The registry \<open>st_db_t\<close> and a caller's object at reference 1 that takes the tag in
  use, with an expression of three parts.
\<close>

definition st_three_parts :: state where
  "st_three_parts =
     st_db_t\<lparr>heap := (\<lambda>r. if r = 1
                           then \<lparr>handler = Some 1, tag = Some ''x'', expression = Some ''a.b.c'',
                                 statement = None, enable = None\<rparr>
                           else heap st_db_t r)\<rparr>"

text \<open>
  The same registry and a caller's object that takes the tag in use, is disabled, and
  has an expression with an empty schema.
\<close>

definition st_same_tag :: state where
  "st_same_tag =
     st_db_t\<lparr>heap := (\<lambda>r. if r = 1
                           then \<lparr>handler = Some 1, tag = Some ''x'', expression = Some ''.z'',
                                 statement = None, enable = Some False\<rparr>
                           else heap st_db_t r)\<rparr>"

subsection \<open>Sequences of the public operations\<close>

datatype operation = Add string "ref option" | Stop string | Start string | Remove string

text \<open>A caller that catches what \<open>add\<close> throws goes on with the state \<open>add\<close> left.\<close>

fun apply_operation :: "operation \<Rightarrow> state \<Rightarrow> state" where
  "apply_operation (Add r36 trg) st = snd (add r36 trg st)"
| "apply_operation (Stop tg) st = stop tg st"
| "apply_operation (Start tg) st = start tg st"
| "apply_operation (Remove tg) st = remove tg st"

definition run :: "operation list \<Rightarrow> state \<Rightarrow> state" where
  "run ops st = fold apply_operation ops st"

text \<open>The instance after the constructor, on a heap of the callers' objects.\<close>

definition empty_registry :: "(ref \<Rightarrow> ITrigger) \<Rightarrow> state" where
  "empty_registry h = \<lparr>triggers = Map.empty, tags = Map.empty, heap = h\<rparr>"

fun is_Remove :: "operation \<Rightarrow> bool" where
  "is_Remove (Remove tg) = True"
| "is_Remove _ = False"

text \<open>
  Two callers' objects with the expression \<open>a.b\<close>: at reference 0 under the tag \<open>t\<close>,
  at every other reference under the tag \<open>u\<close>. The first is added and removed.
\<close>

definition heap_a_b :: "ref \<Rightarrow> ITrigger" where
  "heap_a_b r =
     (if r = 0
      then \<lparr>handler = Some 0, tag = Some ''t'', expression = Some ''a.b'', statement = None,
            enable = None\<rparr>
      else \<lparr>handler = Some 1, tag = Some ''u'', expression = Some ''a.b'', statement = None,
            enable = None\<rparr>)"

definition st_removed :: state where
  "st_removed = run [Add ''0.5'' (Some 0), Remove ''t''] (empty_registry heap_a_b)"

subsection \<open>Batches used as examples\<close>

text \<open>An insert of two rows into \<open>shop.orders\<close>, as the binlog reader delivers it.\<close>

definition ev_two_rows :: blEvent where
  "ev_two_rows =
     \<lparr>tableMap = map_of [(5, \<lparr>parentSchema = ''shop'', tableName = ''orders''\<rparr>)],
      tableId = 5, bl_timestamp = 7,
      rows = [Columns [(''id'', JNum 1)], Columns [(''id'', JNum 2)]]\<rparr>"

text \<open>
  The registry after \<open>add\<close> of one trigger on \<open>db.t\<close>, and an insert of one row into the
  table \<open>t.x\<close> of the database \<open>db\<close>.
\<close>

definition st_added_db_t :: state where
  "st_added_db_t =
     run [Add ''0.5'' (Some 0)]
       (empty_registry (\<lambda>_. \<lparr>handler = Some 10, tag = Some ''x'', expression = Some ''db.t'',
                               statement = None, enable = None\<rparr>))"

definition ev_dotted_table :: blEvent where
  "ev_dotted_table =
     \<lparr>tableMap = map_of [(5, \<lparr>parentSchema = ''db'', tableName = ''t.x''\<rparr>)],
      tableId = 5, bl_timestamp = 7,
      rows = [Columns [(''id'', JNum 1)]]\<rparr>"

section \<open>Properties\<close>

subsection \<open>Splitting at a separator\<close>

lemma split_not_Nil: "split c s \<noteq> []"
  by (induction s) (auto split: list.splits)

lemma split_no_sep: "c \<notin> set s \<Longrightarrow> split c s = [s]"
  by (induction s) auto

lemma split_append_sep: "c \<notin> set a \<Longrightarrow> split c (a @ c # b) = a # split c b"
  by (induction a) auto

lemma split_parts_no_sep: "p \<in> set (split c s) \<Longrightarrow> c \<notin> set p"
  by (induction s arbitrary: p) (auto split: if_splits list.splits)

lemma split_one: "split c s = [b] \<Longrightarrow> s = b"
  by (induction s arbitrary: b) (auto simp: split_not_Nil split: if_splits list.splits)

lemma split_two: "split c s = [a, b] \<Longrightarrow> s = a @ c # b"
  by (induction s arbitrary: a) (auto dest: split_one split: if_splits list.splits)

lemma split_two_iff:
  "split c s = [a, b] \<longleftrightarrow> s = a @ c # b \<and> c \<notin> set a \<and> c \<notin> set b"
proof
  assume h: "split c s = [a, b]"
  then have "a \<in> set (split c s)" and "b \<in> set (split c s)" by simp_all
  then show "s = a @ c # b \<and> c \<notin> set a \<and> c \<notin> set b"
    using h split_two split_parts_no_sep by metis
next
  assume "s = a @ c # b \<and> c \<notin> set a \<and> c \<notin> set b"
  then show "split c s = [a, b]"
    by (simp add: split_append_sep split_no_sep)
qed

lemma length_split_two: "length (split c s) = 2 \<Longrightarrow> \<exists>a b. split c s = [a, b]"
  by (cases "split c s"; simp) (metis length_0_conv length_Suc_conv One_nat_def Suc_length_conv)

subsection \<open>Normalising an expression\<close>

text \<open>
  The first variant of \<open>checkExpression\<close> on each form of input: two parts that are
  not empty come back as they are (\<open>*.*\<close> apart, which is \<open>*\<close>), an empty part becomes
  \<open>*\<close>, and three parts or more are refused.
\<close>

lemma checkExpression_star:
  "checkExpression None = Inr ''*''"
  "checkExpression (Some []) = Inr ''*''"
  "checkExpression (Some ''*'') = Inr ''*''"
  "checkExpression (Some ''*.*'') = Inr ''*''"
  by (simp_all add: checkExpression_def)

lemma checkExpression_two_parts:
  assumes "a \<noteq> []" and "b \<noteq> []" and "CHR ''.'' \<notin> set a" and "CHR ''.'' \<notin> set b"
    and "\<not> (a = ''*'' \<and> b = ''*'')"
  shows "checkExpression (Some (a @ ''.'' @ b)) = Inr (a @ ''.'' @ b)"
proof -
  have "split CHR ''.'' (a @ ''.'' @ b) = [a, b]"
    using assms(3,4) by (simp add: split_two_iff)
  moreover have "a @ ''.'' @ b \<noteq> ''*''" and "a @ ''.'' @ b \<noteq> ''*.*''"
    using assms(1,2,5) by (auto simp: append_eq_Cons_conv Cons_eq_append_conv)
  ultimately show ?thesis
    using assms(1,2) by (simp add: checkExpression_def)
qed

lemma checkExpression_empty_schema:
  assumes "CHR ''.'' \<notin> set b"
  shows "checkExpression (Some (''.'' @ b)) = Inr (''*.'' @ b)"
  using assms by (simp add: checkExpression_def split_no_sep)

lemma checkExpression_empty_table:
  assumes "a \<noteq> []" and "CHR ''.'' \<notin> set a"
  shows "checkExpression (Some (a @ ''.'')) = Inr (a @ ''.*'')"
proof -
  have "split CHR ''.'' (a @ ''.'') = [a, []]"
    using assms(2) by (simp add: split_two_iff)
  moreover have "a @ ''.'' \<noteq> ''*''" and "a @ ''.'' \<noteq> ''*.*''"
    using assms(1) by (auto simp: append_eq_Cons_conv Cons_eq_append_conv)
  ultimately show ?thesis
    using assms(1) by (simp add: checkExpression_def)
qed

lemma checkExpression_three_parts:
  assumes "CHR ''.'' \<notin> set a" and "CHR ''.'' \<notin> set b"
  shows "checkExpression (Some (a @ ''.'' @ b @ ''.'' @ c)) = Inl InvalidExpression"
proof -
  have sp: "split CHR ''.'' (a @ ''.'' @ b @ ''.'' @ c) = a # b # split CHR ''.'' c"
    using assms by (simp add: split_append_sep)
  then have len: "length (split CHR ''.'' (a @ ''.'' @ b @ ''.'' @ c)) \<noteq> 2"
    using split_not_Nil [of "CHR ''.''" c] by (cases "split CHR ''.'' c") simp_all
  have "a @ ''.'' @ b @ ''.'' @ c \<noteq> ''*''" and "a @ ''.'' @ b @ ''.'' @ c \<noteq> ''*.*''"
    and "a @ ''.'' @ b @ ''.'' @ c \<noteq> []"
    using len by auto
  then show ?thesis
    using len by (simp add: checkExpression_def Let_def)
qed

text \<open>
  C6, on the third variant (lines 647 to 657): normalize(".b") is to be "*.b" and
  normalize("a.") is to be "a.*". This variant returns both as they came. The first
  variant does what the claim says, by the five lemmas above.
\<close>

theorem checkExpression_3_keeps_empty_part:
  "checkExpression_3 (Some ''.b'') = Inr ''.b'' \<and> checkExpression_3 (Some ''a.'') = Inr ''a.''
   \<and> checkExpression (Some ''.b'') = Inr ''*.b'' \<and> checkExpression (Some ''a.'') = Inr ''a.*''"
  by (simp add: checkExpression_3_def checkExpression_def)

text \<open>
  Every result of the first variant has a canonical shape, for every input but the
  three that pair an empty part with an empty part or with \<open>*\<close>.
\<close>

lemma checkExpression_canonical:
  assumes "checkExpression e = Inr s"
    and "e \<noteq> Some ''.''" and "e \<noteq> Some ''.*''" and "e \<noteq> Some ''*.''"
  shows "canonical s"
proof (cases e)
  case None
  with assms(1) show ?thesis by (simp add: checkExpression_def canonical_def)
next
  case (Some x)
  show ?thesis
  proof (cases "x = [] \<or> x = ''*'' \<or> x = ''*.*''")
    case True
    with assms(1) Some show ?thesis by (auto simp add: checkExpression_def canonical_def)
  next
    case False
    with assms(1) Some have len: "length (split CHR ''.'' x) = 2"
      by (auto simp: checkExpression_def Let_def split: if_splits)
    then obtain a b where ab: "split CHR ''.'' x = [a, b]"
      using length_split_two by blast
    then have x: "x = a @ CHR ''.'' # b" and na: "CHR ''.'' \<notin> set a" and nb: "CHR ''.'' \<notin> set b"
      by (simp_all add: split_two_iff)
    from assms(1) Some False ab
    have s: "s = (if a = [] then ''*.'' @ b else if b = [] then a @ ''.*'' else x)"
      by (auto simp: checkExpression_def Let_def split: if_splits)
    show ?thesis
    proof (cases "a = []")
      case True
      with x assms(2,3) Some have "b \<noteq> []" "b \<noteq> ''*''" by auto
      moreover have "split CHR ''.'' (''*.'' @ b) = [''*'', b]"
        using nb by (simp add: split_no_sep)
      ultimately show ?thesis using s True
        by (simp add: canonical_def name_part_def)
    next
      case False
      note a = this
      show ?thesis
      proof (cases "b = []")
        case True
        with x assms(4) Some have "a \<noteq> ''*''" by auto
        moreover have "split CHR ''.'' (a @ ''.*'') = [a, ''*'']"
          using na by (simp add: split_append_sep)
        ultimately show ?thesis using s a True
          by (simp add: canonical_def name_part_def)
      next
        case False
        with a s have "s = x" by simp
        moreover have "\<not> (a = ''*'' \<and> b = ''*'')"
          using x \<open>\<not> (x = [] \<or> x = ''*'' \<or> x = ''*.*'')\<close> by auto
        ultimately show ?thesis using ab a False
          by (auto simp add: canonical_def name_part_def)
      qed
    qed
  qed
qed

text \<open>
  C7: every string normalize returns is to have one of the four canonical shapes. On
  the inputs \<open>.*\<close> and \<open>*.\<close> the result is \<open>*.*\<close>, and on \<open>.\<close> it is \<open>*.\<close>; neither is
  canonical. The substitution of \<open>*\<close> for an empty part is not followed by the check
  for \<open>*.*\<close>, nor is the other part looked at.
\<close>

theorem checkExpression_not_canonical:
  "checkExpression (Some ''.*'') = Inr ''*.*'' \<and> \<not> canonical ''*.*''
   \<and> checkExpression (Some ''*.'') = Inr ''*.*''
   \<and> checkExpression (Some ''.'') = Inr ''*.'' \<and> \<not> canonical ''*.''"
  by (simp add: checkExpression_def canonical_def name_part_def)

subsection \<open>Matching\<close>

lemma pathOptions_candidates:
  assumes "CHR ''.'' \<notin> set db" and "CHR ''.'' \<notin> set tbl"
  shows "pathOptions (db @ ''.'' @ tbl) = candidates db tbl"
proof -
  have "split CHR ''.'' (db @ ''.'' @ tbl) = [db, tbl]"
    using assms by (simp add: split_two_iff)
  then show ?thesis
    by (simp add: pathOptions_def candidates_def)
qed

text \<open>The loop over the candidates appends each candidate's owner, in order.\<close>

lemma getTriggers_forEach_owner:
  assumes "ran (tags st) \<subseteq> dom (triggers st)" and "[] \<notin> ran (tags st)"
  shows "getTriggers_forEach st act exps trgs = Inr (trgs @ concat (map (owner st act) exps))"
proof (induction exps arbitrary: trgs)
  case Nil
  show ?case by simp
next
  case (Cons e exps)
  show ?case
  proof (cases "tags st e")
    case None
    then show ?thesis by (simp add: Cons.IH owner_def)
  next
    case (Some tg)
    then have "tg \<in> ran (tags st)" by (rule ranI)
    with assms obtain r where r: "triggers st tg = Some r" and ne: "tg \<noteq> []"
      by auto
    show ?thesis
      using Some r ne by (simp add: Cons.IH owner_def accepts_def conj_commute)
  qed
qed

lemma length_match_spec: "length (match_spec st db tbl act) \<le> 4"
  by (simp add: match_spec_def candidates_def owner_def split: option.splits)

lemma set_match_spec:
  "set (match_spec st db tbl act) =
     {r. \<exists>e tg. e \<in> set (candidates db tbl) \<and> tags st e = Some tg \<and> triggers st tg = Some r
           \<and> accepts (heap st r) act}"
proof -
  have "r \<in> set (owner st act e) \<longleftrightarrow>
      (\<exists>tg. tags st e = Some tg \<and> triggers st tg = Some r \<and> accepts (heap st r) act)" for r e
    by (cases "tags st e") (auto simp: owner_def split: option.splits)
  then show ?thesis
    by (auto simp: match_spec_def)
qed

text \<open>
  Where the names of the database and the table have no dot: in a registry where every
  entry of the expression map gives a tag that is not empty and is in the tag map,
  match returns the owners of the four candidates \<open>*\<close>, \<open>db.*\<close>, \<open>*.table\<close>, \<open>db.table\<close>
  that are enabled and whose statement is \<open>ALL\<close> or the action, in that order: at most
  four, each candidate on its own, none hidden by a more specific one.
\<close>

theorem getTriggers_match_spec:
  assumes "CHR ''.'' \<notin> set db" and "CHR ''.'' \<notin> set tbl"
    and "ran (tags st) \<subseteq> dom (triggers st)" and "[] \<notin> ran (tags st)"
  shows "getTriggers st (db @ ''.'' @ tbl) act = Inr (match_spec st db tbl act)
     \<and> length (match_spec st db tbl act) \<le> 4
     \<and> set (match_spec st db tbl act) =
         {r. \<exists>e tg. e \<in> set (candidates db tbl) \<and> tags st e = Some tg
               \<and> triggers st tg = Some r \<and> accepts (heap st r) act}"
proof -
  have "getTriggers st (db @ ''.'' @ tbl) act =
      getTriggers_forEach st act (candidates db tbl) []"
    unfolding getTriggers_def pathOptions_candidates [OF assms(1,2)] ..
  also have "\<dots> = Inr (match_spec st db tbl act)"
    using assms(3,4) by (simp add: getTriggers_forEach_owner match_spec_def)
  finally show ?thesis
    using length_match_spec set_match_spec by blast
qed

text \<open>
  The example of the specification: an insert on \<open>shop.orders\<close> reaches the
  subscriptions on \<open>*\<close> and on \<open>*.orders\<close>, in that order.
\<close>

theorem getTriggers_match_spec_witness:
  "CHR ''.'' \<notin> set ''shop'' \<and> CHR ''.'' \<notin> set ''orders''
   \<and> ran (tags st_shop) \<subseteq> dom (triggers st_shop) \<and> [] \<notin> ran (tags st_shop)
   \<and> getTriggers st_shop ''shop.orders'' ''INSERT'' = Inr [0, 2]
   \<and> match_spec st_shop ''shop'' ''orders'' ''INSERT'' = [0, 2]"
  using getTriggers_match_spec [of "''shop''" "''orders''" st_shop "''INSERT''"]
  by (simp add: st_shop_def ran_distinct match_spec_def candidates_def owner_def accepts_def
      trigger_on_def)

text \<open>
  C1: for every database and table, match is to return the owners of \<open>*\<close>, \<open>db.*\<close>,
  \<open>*.table\<close> and \<open>db.table\<close>. After \<open>add\<close> of a trigger on \<open>db.t\<close>, an insert into the
  table \<open>t.x\<close> of the database \<open>db\<close> is dispatched under the path \<open>db.t.x\<close>, which match
  splits into \<open>db\<close>, \<open>t\<close> and \<open>x\<close>: the subscription on \<open>db.t\<close> is returned, though it owns
  none of the four candidates of \<open>db\<close> and \<open>t.x\<close>, its handler is called, and the event
  names the table \<open>t\<close>.
\<close>

theorem eventHandler_dotted_table:
  "fst (add ''0.5'' (Some 0)
         (empty_registry (\<lambda>_. \<lparr>handler = Some 10, tag = Some ''x'', expression = Some ''db.t'',
                                 statement = None, enable = None\<rparr>))) = Inr (RetTag ''x'')
   \<and> getTriggers st_added_db_t (''db'' @ ''.'' @ ''t.x'') ''INSERT'' = Inr [0]
   \<and> match_spec st_added_db_t ''db'' ''t.x'' ''INSERT'' = []
   \<and> eventHandler st_added_db_t [] ev_dotted_table ''INSERT'' =
       Inr ([(10, 0)],
            [\<lparr>action = ''INSERT'', timestamp = 7, database = ''db'', table = Some ''t'',
              changedColumns = [],
              data = \<lparr>old = Null, new = Object (Columns [(''id'', JNum 1)])\<rparr>\<rparr>])"
  by (simp add: st_added_db_t_def ev_dotted_table_def run_def empty_registry_def add_def
      checkExpression_def or_else_def getTriggers_def pathOptions_def match_spec_def
      candidates_def owner_def accepts_def eventHandler_def getEventObject_def
      getManyEvents_def eventRow_def newEvent_def Let_def)

subsection \<open>Registering\<close>

text \<open>
  C3, amended: for a trigger with a callable handler whose expression normalises, add
  returns \<open>null\<close> and leaves both maps as they were when the defaulted tag is in the tag
  map or the normalised expression is in the expression map; when neither is, it
  enters the pair in both maps and returns the tag. When the expression does not
  normalise, add throws the error of \<open>checkExpression\<close>, whatever the maps hold, and
  leaves both maps as they were.
\<close>

theorem add_rejects_or_inserts:
  assumes "handler (heap st r) \<noteq> None"
  shows "case checkExpression (expression (heap st r)) of
           Inl e \<Rightarrow>
             fst (add r36 (Some r) st) = Inl e
             \<and> triggers (snd (add r36 (Some r) st)) = triggers st
             \<and> tags (snd (add r36 (Some r) st)) = tags st
         | Inr ex \<Rightarrow>
             if or_else (tag (heap st r)) (getRandomTag r36) \<in> dom (triggers st)
                \<or> ex \<in> dom (tags st)
             then fst (add r36 (Some r) st) = Inr RetNull
                \<and> triggers (snd (add r36 (Some r) st)) = triggers st
                \<and> tags (snd (add r36 (Some r) st)) = tags st
             else fst (add r36 (Some r) st)
                    = Inr (RetTag (or_else (tag (heap st r)) (getRandomTag r36)))
                \<and> triggers (snd (add r36 (Some r) st))
                    = (triggers st)(or_else (tag (heap st r)) (getRandomTag r36) \<mapsto> r)
                \<and> tags (snd (add r36 (Some r) st))
                    = (tags st)(ex \<mapsto> or_else (tag (heap st r)) (getRandomTag r36))"
proof -
  from assms obtain f where "handler (heap st r) = Some f" by auto
  then show ?thesis
    by (simp add: add_def Let_def split: sum.splits)
qed

text \<open>A trigger under a tag in use, with the expression \<open>.z\<close>, is rejected.\<close>

theorem add_rejects_or_inserts_witness:
  "handler (heap st_same_tag 1) \<noteq> None
   \<and> checkExpression (expression (heap st_same_tag 1)) = Inr ''*.z''
   \<and> or_else (tag (heap st_same_tag 1)) (getRandomTag ''0.5'') \<in> dom (triggers st_same_tag)
   \<and> fst (add ''0.5'' (Some 1) st_same_tag) = Inr RetNull
   \<and> triggers (snd (add ''0.5'' (Some 1) st_same_tag)) = triggers st_same_tag
   \<and> tags (snd (add ''0.5'' (Some 1) st_same_tag)) = tags st_same_tag"
  using add_rejects_or_inserts [of st_same_tag 1 "''0.5''"]
  by (simp add: st_same_tag_def st_db_t_def checkExpression_def or_else_def)

text \<open>
  C3 as it is written fails: a trigger with a callable handler, under a tag that is in
  the tag map, with the expression \<open>a.b.c\<close>. add does not return the rejection; it
  throws, since the expression is checked before the maps are.
\<close>

theorem add_raises_on_collision:
  "handler (heap st_three_parts 1) \<noteq> None
   \<and> or_else (tag (heap st_three_parts 1)) (getRandomTag ''0.5'') \<in> dom (triggers st_three_parts)
   \<and> fst (add ''0.5'' (Some 1) st_three_parts) = Inl InvalidExpression"
  by (simp add: st_three_parts_def st_db_t_def add_def checkExpression_def or_else_def Let_def)



subsection \<open>Removing\<close>

lemma remove_tags: "tags (remove tg st) = tags st"
  by (simp add: remove_def)

text \<open>
  C2: remove is to delete the entry of the expression map with the entry of the tag
  map, so that the expression can be registered again. After \<open>add\<close> of a trigger under
  the tag \<open>t\<close> on \<open>a.b\<close> and \<open>remove\<close> of \<open>t\<close>, the tag map has no \<open>t\<close>, the expression map
  still sends \<open>a.b\<close> to \<open>t\<close>, and \<open>add\<close> of another trigger on \<open>a.b\<close> under the new tag \<open>u\<close>
  is rejected.
\<close>

theorem remove_keeps_expression:
  "fst (add ''0.5'' (Some 0) (empty_registry heap_a_b)) = Inr (RetTag ''t'')
   \<and> triggers st_removed ''t'' = None
   \<and> tags st_removed ''a.b'' = Some ''t''
   \<and> fst (add ''0.5'' (Some 1) st_removed) = Inr RetNull"
  by (simp add: st_removed_def run_def empty_registry_def heap_a_b_def add_def remove_def
      checkExpression_def or_else_def Let_def)

subsection \<open>Matching in the registries that the operations reach\<close>

lemma add_keeps_resolving:
  assumes "ran (tags st) \<subseteq> dom (triggers st)"
  shows "ran (tags (snd (add r36 trg st))) \<subseteq> dom (triggers (snd (add r36 trg st)))"
proof (cases trg)
  case None
  with assms show ?thesis by (simp add: add_def)
next
  case (Some r)
  have upd: "ran (m(e \<mapsto> t)) \<subseteq> insert t (ran m)" for m :: "string \<rightharpoonup> string" and e t
    by (auto simp: ran_def)
  show ?thesis
    using assms Some upd
    by (auto simp: add_def Let_def split: sum.splits if_splits dest!: subsetD)
qed

lemma stop_keeps_resolving:
  "ran (tags st) \<subseteq> dom (triggers st) \<Longrightarrow> ran (tags (stop tg st)) \<subseteq> dom (triggers (stop tg st))"
  by (simp add: stop_def split: option.splits)

lemma start_keeps_resolving:
  "ran (tags st) \<subseteq> dom (triggers st) \<Longrightarrow> ran (tags (start tg st)) \<subseteq> dom (triggers (start tg st))"
  by (simp add: start_def split: option.splits)

lemma run_keeps_resolving:
  assumes "ran (tags st) \<subseteq> dom (triggers st)" and "list_all (\<lambda>x. \<not> is_Remove x) ops"
  shows "ran (tags (run ops st)) \<subseteq> dom (triggers (run ops st))"
  using assms unfolding run_def
proof (induction ops arbitrary: st)
  case Nil
  then show ?case by simp
next
  case (Cons x ops)
  from Cons.prems have "ran (tags (apply_operation x st)) \<subseteq> dom (triggers (apply_operation x st))"
    by (cases x) (simp_all add: add_keeps_resolving stop_keeps_resolving start_keeps_resolving)
  with Cons show ?case by simp
qed

lemma getTriggers_forEach_total:
  assumes "ran (tags st) \<subseteq> dom (triggers st)"
  shows "\<exists>res. getTriggers_forEach st act exps trgs = Inr res"
proof (induction exps arbitrary: trgs)
  case Nil
  show ?case by simp
next
  case (Cons e exps)
  show ?case
  proof (cases "tags st e")
    case None
    then show ?thesis by (simp add: Cons.IH)
  next
    case (Some tg)
    then have "tg \<in> ran (tags st)" by (rule ranI)
    with assms obtain r where r: "triggers st tg = Some r"
      by auto
    show ?thesis
      using Some r by (simp add: Cons.IH)
  qed
qed

text \<open>Without \<open>remove\<close>, every registry the operations reach lets match return.\<close>

lemma getTriggers_total_without_remove:
  assumes "list_all (\<lambda>x. \<not> is_Remove x) ops"
  shows "\<exists>res. getTriggers (run ops (empty_registry h)) p act = Inr res"
proof -
  have "ran (tags (empty_registry h)) \<subseteq> dom (triggers (empty_registry h))"
    by (simp add: empty_registry_def)
  then have "ran (tags (run ops (empty_registry h))) \<subseteq> dom (triggers (run ops (empty_registry h)))"
    using assms by (rule run_keeps_resolving)
  then show ?thesis
    unfolding getTriggers_def by (rule getTriggers_forEach_total)
qed

text \<open>
  C9: in every registry reached from the empty one by add, start, stop and remove,
  match is to find a subscription for every tag the expression map gives. After
  \<open>add\<close> of a trigger on \<open>a.b\<close> and \<open>remove\<close> of its tag, a change on \<open>a.b\<close> makes match read
  the fields of a subscription that is not there, and it throws.
\<close>

theorem getTriggers_after_remove:
  "getTriggers st_removed ''a.b'' ''INSERT'' = Inl TypeError"
  by (simp add: st_removed_def run_def empty_registry_def heap_a_b_def add_def remove_def
      checkExpression_def or_else_def Let_def getTriggers_def pathOptions_def)

subsection \<open>Building events\<close>

lemma set_Set_add: "set (Set_add s k) = insert k (set s)"
  by (auto simp: Set_add_def)

lemma set_changedColumns_for:
  "set (changedColumns_for b a keys changed) =
     set changed \<union> {k \<in> set keys. js_String (getProp b k) \<noteq> js_String (getProp a k)}"
  by (induction keys arbitrary: changed) (auto simp: set_Set_add)

lemma changedColumns_for_distinct:
  assumes "distinct keys" and "set keys \<inter> set changed = {}"
  shows "changedColumns_for b a keys changed =
     changed @ filter (\<lambda>k. js_String (getProp b k) \<noteq> js_String (getProp a k)) keys"
  using assms
  by (induction keys arbitrary: changed) (auto simp: Set_add_def)

text \<open>The action, the time, the database and the table of an event are never written.\<close>

lemma eventRow_frame:
  "action (eventRow act row e) = action e"
  "timestamp (eventRow act row e) = timestamp e"
  "database (eventRow act row e) = database e"
  "table (eventRow act row e) = table e"
  by (simp_all add: eventRow_def Let_def split: row.splits)

lemma eventRow_INSERT:
  "eventRow (STATEMENTS_value INSERT) row (newEvent act p ts) =
     (newEvent act p ts)\<lparr>data := \<lparr>old = Null, new = Object row\<rparr>\<rparr>"
  by (simp add: eventRow_def newEvent_def Let_def)

lemma eventRow_DELETE:
  "eventRow (STATEMENTS_value DELETE) row (newEvent act p ts) =
     (newEvent act p ts)\<lparr>data := \<lparr>old = Object row, new = Null\<rparr>\<rparr>"
  by (simp add: eventRow_def newEvent_def Let_def)

text \<open>
  What the update branch of the loop body (lines 186 to 197) leaves in the event for
  a row with a before image and an after image: \<open>data.old\<close> is the before image,
  \<open>data.new\<close> the after image, and \<open>changedColumns\<close> holds the keys of the before image
  whose two values print differently under \<open>String\<close>, in the order of the keys. For a
  batch of this one row that event is the one returned.
\<close>

theorem eventRow_UPDATE:
  "old (data (eventRow (STATEMENTS_value UPDATE) (BeforeAfter b a) e)) = Object (Columns b)
   \<and> new (data (eventRow (STATEMENTS_value UPDATE) (BeforeAfter b a) e)) = Object (Columns a)
   \<and> set (changedColumns (eventRow (STATEMENTS_value UPDATE) (BeforeAfter b a) e)) =
       {k \<in> fst ` set b. js_String (getProp b k) \<noteq> js_String (getProp a k)}
   \<and> (distinct (map fst b) \<longrightarrow>
        changedColumns (eventRow (STATEMENTS_value UPDATE) (BeforeAfter b a) e) =
          filter (\<lambda>k. js_String (getProp b k) \<noteq> js_String (getProp a k)) (map fst b))
   \<and> (event < length es \<longrightarrow>
        getManyEvents event (STATEMENTS_value UPDATE) [BeforeAfter b a] es =
          ([event], es[event := eventRow (STATEMENTS_value UPDATE) (BeforeAfter b a) (es ! event)]))"
  by (simp add: eventRow_def set_changedColumns_for changedColumns_for_distinct getManyEvents_def)

text \<open>
  The example of the specification, where only \<open>status\<close> changes, and a number against
  the string of its digits, which is no change.
\<close>

theorem eventRow_UPDATE_witness:
  "distinct (map fst [(''status'', JStr ''A''), (''qty'', JNum 1)])
   \<and> changedColumns (eventRow ''UPDATE''
        (BeforeAfter [(''status'', JStr ''A''), (''qty'', JNum 1)]
                     [(''status'', JStr ''B''), (''qty'', JNum 1)])
        (newEvent ''UPDATE'' ''shop.orders'' 7)) = [''status'']
   \<and> changedColumns (eventRow ''UPDATE''
        (BeforeAfter [(''qty'', JNum 1)] [(''qty'', JStr ''1'')])
        (newEvent ''UPDATE'' ''shop.orders'' 7)) = []"
  using eventRow_UPDATE [of "[(''status'', JStr ''A''), (''qty'', JNum 1)]"
      "[(''status'', JStr ''B''), (''qty'', JNum 1)]" "newEvent ''UPDATE'' ''shop.orders'' 7" 0 "[]"]
    eventRow_UPDATE [of "[(''qty'', JNum 1)]" "[(''qty'', JStr ''1'')]"
      "newEvent ''UPDATE'' ''shop.orders'' 7" 0 "[]"]
  by (simp add: getProp_def)

text \<open>
  The first variant returns the one reference it was given, once per row, and the
  object holds what the rows wrote one after the other.
\<close>

lemma getManyEvents_forEach_eq:
  "event < length es \<Longrightarrow>
   getManyEvents_forEach event act rs es payloads =
     (payloads @ replicate (length rs) event,
      es[event := fold (eventRow act) rs (es ! event)])"
proof (induction rs arbitrary: es payloads)
  case Nil
  then show ?case by simp
next
  case (Cons row rs)
  then show ?case
    by (simp add: replicate_app_Cons_same)
qed

lemma fst_getManyEvents_forEach:
  "fst (getManyEvents_forEach event act rs es payloads) = payloads @ replicate (length rs) event"
  by (induction rs arbitrary: es payloads) (simp_all add: replicate_app_Cons_same)

text \<open>The second variant: one new object per row, holding what that row wrote.\<close>

lemma upt_step: "[n ..< n + Suc k] = n # [Suc n ..< Suc n + k]"
proof -
  have "n < n + Suc k" by simp
  then have "[n ..< n + Suc k] = n # [Suc n ..< n + Suc k]"
    by (rule upt_conv_Cons)
  then show ?thesis
    by (simp only: add_Suc_shift)
qed

lemma getManyEvents_2_for_eq:
  "getManyEvents_2_for act rs t es payloads =
     (payloads @ [length es ..< length es + length rs],
      es @ map (\<lambda>row. eventRow act row (newEvent act (path t) (template_timestamp t))) rs)"
proof (induction rs arbitrary: es payloads)
  case Nil
  show ?case by simp
next
  case (Cons row rs)
  let ?new = "newEvent act (path t) (template_timestamp t)"
  have "getManyEvents_2_for act (row # rs) t es payloads =
      getManyEvents_2_for act rs t (es @ [eventRow act row ?new]) (payloads @ [length es])"
    by (simp add: getEventTemplate_def)
  also have "\<dots> =
      (payloads @ length es # [Suc (length es) ..< Suc (length es) + length rs],
       es @ map (\<lambda>row. eventRow act row ?new) (row # rs))"
    by (simp add: Cons.IH)
  also have "length es # [Suc (length es) ..< Suc (length es) + length rs] =
      [length es ..< length es + length (row # rs)]"
    using upt_step [of "length es" "length rs"] by (simp only: list.size) simp
  finally show ?case .
qed

lemma getManyEvents_2_rows:
  assumes "getManyEvents_2 act rs t es = (payloads, es')"
  shows "length payloads = length rs"
    and "distinct payloads"
    and "i < length rs \<Longrightarrow>
      es' ! (payloads ! i) = eventRow act (rs ! i) (newEvent act (path t) (template_timestamp t))"
proof -
  from assms have p: "payloads = [length es ..< length es + length rs]"
    and e: "es' = es @ map (\<lambda>row. eventRow act row (newEvent act (path t) (template_timestamp t))) rs"
    by (simp_all add: getManyEvents_2_def getManyEvents_2_for_eq)
  show "length payloads = length rs" by (simp add: p)
  show "distinct payloads" by (simp add: p)
  show "es' ! (payloads ! i) = eventRow act (rs ! i) (newEvent act (path t) (template_timestamp t))"
    if "i < length rs"
    using that by (simp add: p e nth_append)
qed

text \<open>
  So in the second variant the i-th event returned holds the i-th row: for an insert
  the row is \<open>data.new\<close> and \<open>data.old\<close> is \<open>null\<close>, for a delete the other way round,
  with no changed columns; every event has the action and the time of the batch and
  the database and table of its path.
\<close>

lemma getManyEvents_2_reflects_rows:
  assumes "getManyEvents_2 act rs t es = (payloads, es')" and "i < length rs"
  shows "action (es' ! (payloads ! i)) = act"
    and "timestamp (es' ! (payloads ! i)) = template_timestamp t"
    and "database (es' ! (payloads ! i)) = database (newEvent act (path t) (template_timestamp t))"
    and "table (es' ! (payloads ! i)) = table (newEvent act (path t) (template_timestamp t))"
    and "act = STATEMENTS_value INSERT \<Longrightarrow>
      data (es' ! (payloads ! i)) = \<lparr>old = Null, new = Object (rs ! i)\<rparr>
      \<and> changedColumns (es' ! (payloads ! i)) = []"
    and "act = STATEMENTS_value DELETE \<Longrightarrow>
      data (es' ! (payloads ! i)) = \<lparr>old = Object (rs ! i), new = Null\<rparr>
      \<and> changedColumns (es' ! (payloads ! i)) = []"
proof -
  have e: "es' ! (payloads ! i) =
      eventRow act (rs ! i) (newEvent act (path t) (template_timestamp t))"
    using assms by (rule getManyEvents_2_rows(3))
  show "action (es' ! (payloads ! i)) = act"
    and "timestamp (es' ! (payloads ! i)) = template_timestamp t"
    and "database (es' ! (payloads ! i)) = database (newEvent act (path t) (template_timestamp t))"
    and "table (es' ! (payloads ! i)) = table (newEvent act (path t) (template_timestamp t))"
    by (simp_all add: e eventRow_frame) (simp_all add: newEvent_def Let_def)
  show "data (es' ! (payloads ! i)) = \<lparr>old = Null, new = Object (rs ! i)\<rparr>
      \<and> changedColumns (es' ! (payloads ! i)) = []" if "act = STATEMENTS_value INSERT"
    using that by (simp add: e eventRow_def newEvent_def Let_def)
  show "data (es' ! (payloads ! i)) = \<lparr>old = Object (rs ! i), new = Null\<rparr>
      \<and> changedColumns (es' ! (payloads ! i)) = []" if "act = STATEMENTS_value DELETE"
    using that by (simp add: e eventRow_def newEvent_def Let_def)
qed

text \<open>
  C5: the i-th event returned is to hold the i-th row. In the first variant (lines 175
  to 203) an insert of two rows returns the same reference twice, and the object it
  refers to holds the second row: the first event returned does not hold the first
  row. The second variant (lines 435 to 465) returns two objects, one per row, as
  \<open>getManyEvents_2_reflects_rows\<close> has it for every batch.
\<close>

theorem getManyEvents_shares_event:
  "getManyEvents (fst (getEventObject ''INSERT'' ''shop.orders'' 7 [])) ''INSERT''
      [Columns [(''id'', JNum 1)], Columns [(''id'', JNum 2)]]
      (snd (getEventObject ''INSERT'' ''shop.orders'' 7 []))
    = ([0, 0],
       [\<lparr>action = ''INSERT'', timestamp = 7, database = ''shop'', table = Some ''orders'',
         changedColumns = [],
         data = \<lparr>old = Null, new = Object (Columns [(''id'', JNum 2)])\<rparr>\<rparr>])
   \<and> getManyEvents_2 ''INSERT''
      [Columns [(''id'', JNum 1)], Columns [(''id'', JNum 2)]]
      \<lparr>path = ''shop.orders'', template_timestamp = 7\<rparr> []
    = ([0, 1],
       [\<lparr>action = ''INSERT'', timestamp = 7, database = ''shop'', table = Some ''orders'',
         changedColumns = [],
         data = \<lparr>old = Null, new = Object (Columns [(''id'', JNum 1)])\<rparr>\<rparr>,
        \<lparr>action = ''INSERT'', timestamp = 7, database = ''shop'', table = Some ''orders'',
         changedColumns = [],
         data = \<lparr>old = Null, new = Object (Columns [(''id'', JNum 2)])\<rparr>\<rparr>])"
  by (simp add: getManyEvents_def getEventObject_def getManyEvents_2_def getEventTemplate_def
      eventRow_def newEvent_def Let_def)

text \<open>
  In the second variant the event of every update row holds that row: its two images,
  and the keys of the before image whose two values print differently.
\<close>

lemma getManyEvents_2_UPDATE_rows:
  assumes "getManyEvents_2 (STATEMENTS_value UPDATE) rs t es = (payloads, es')"
    and "i < length rs" and "rs ! i = BeforeAfter b a"
  shows "old (data (es' ! (payloads ! i))) = Object (Columns b)"
    and "new (data (es' ! (payloads ! i))) = Object (Columns a)"
    and "set (changedColumns (es' ! (payloads ! i))) =
       {k \<in> fst ` set b. js_String (getProp b k) \<noteq> js_String (getProp a k)}"
    and "distinct (map fst b) \<Longrightarrow>
       changedColumns (es' ! (payloads ! i)) =
         filter (\<lambda>k. js_String (getProp b k) \<noteq> js_String (getProp a k)) (map fst b)"
proof -
  have e: "es' ! (payloads ! i) =
      eventRow (STATEMENTS_value UPDATE) (BeforeAfter b a)
        (newEvent (STATEMENTS_value UPDATE) (path t) (template_timestamp t))"
    using getManyEvents_2_rows(3) [OF assms(1,2)] assms(3) by simp
  note u = eventRow_UPDATE [of b a
      "newEvent (STATEMENTS_value UPDATE) (path t) (template_timestamp t)" 0 "[]"]
  show "old (data (es' ! (payloads ! i))) = Object (Columns b)"
    and "new (data (es' ! (payloads ! i))) = Object (Columns a)"
    and "set (changedColumns (es' ! (payloads ! i))) =
       {k \<in> fst ` set b. js_String (getProp b k) \<noteq> js_String (getProp a k)}"
    unfolding e using u by blast+
  show "changedColumns (es' ! (payloads ! i)) =
         filter (\<lambda>k. js_String (getProp b k) \<noteq> js_String (getProp a k)) (map fst b)"
    if "distinct (map fst b)"
    unfolding e using u that by blast
qed

text \<open>
  C4: the event built for an update row is to hold that row's before image, after
  image and changed columns. In the first variant (lines 175 to 203) an update of two
  rows, where \<open>status\<close> goes from \<open>A\<close> to \<open>B\<close> in the first and stays \<open>C\<close> in the second,
  returns the same reference twice, and the object holds the images of the second row
  and no changed column: the change of the first row is in no event. The second
  variant (lines 435 to 465) returns one object per row, the first with the changed
  column \<open>status\<close>.
\<close>

theorem getManyEvents_loses_update:
  "getManyEvents (fst (getEventObject ''UPDATE'' ''shop.orders'' 7 [])) ''UPDATE''
      [BeforeAfter [(''status'', JStr ''A'')] [(''status'', JStr ''B'')],
       BeforeAfter [(''status'', JStr ''C'')] [(''status'', JStr ''C'')]]
      (snd (getEventObject ''UPDATE'' ''shop.orders'' 7 []))
    = ([0, 0],
       [\<lparr>action = ''UPDATE'', timestamp = 7, database = ''shop'', table = Some ''orders'',
         changedColumns = [],
         data = \<lparr>old = Object (Columns [(''status'', JStr ''C'')]),
                 new = Object (Columns [(''status'', JStr ''C'')])\<rparr>\<rparr>])
   \<and> getManyEvents_2 ''UPDATE''
      [BeforeAfter [(''status'', JStr ''A'')] [(''status'', JStr ''B'')],
       BeforeAfter [(''status'', JStr ''C'')] [(''status'', JStr ''C'')]]
      \<lparr>path = ''shop.orders'', template_timestamp = 7\<rparr> []
    = ([0, 1],
       [\<lparr>action = ''UPDATE'', timestamp = 7, database = ''shop'', table = Some ''orders'',
         changedColumns = [''status''],
         data = \<lparr>old = Object (Columns [(''status'', JStr ''A'')]),
                 new = Object (Columns [(''status'', JStr ''B'')])\<rparr>\<rparr>,
        \<lparr>action = ''UPDATE'', timestamp = 7, database = ''shop'', table = Some ''orders'',
         changedColumns = [],
         data = \<lparr>old = Object (Columns [(''status'', JStr ''C'')]),
                 new = Object (Columns [(''status'', JStr ''C'')])\<rparr>\<rparr>])"
  by (simp add: getManyEvents_def getEventObject_def getManyEvents_2_def getEventTemplate_def
      eventRow_def newEvent_def getProp_def Set_add_def Let_def)

subsection \<open>Dispatch\<close>

lemma events_forEach_Some: "events_forEach (Some f) evts = Inr (map (Pair f) evts)"
  by (induction evts) simp_all

lemma triggers_for_calls:
  assumes "\<forall>t \<in> set trgs. handler (heap st t) \<noteq> None"
  shows "triggers_for st trgs events =
     Inr (concat (map (\<lambda>t. map (Pair (the (handler (heap st t)))) events) trgs))"
  using assms
proof (induction trgs)
  case Nil
  show ?case by simp
next
  case (Cons t trgs)
  then obtain f where "handler (heap st t) = Some f" by auto
  with Cons show ?case by (simp add: events_forEach_Some)
qed

lemma length_concat_calls:
  "length (concat (map (\<lambda>t. map (g t) events) trgs)) = length trgs * length events"
  by (induction trgs) simp_all

text \<open>
  C8: for a batch whose table is in the table map, when match returns no subscriber
  the engine returns at once: no call, and the store of event objects as it was. When
  match returns N subscribers, each with a callable handler, the builder gives one
  event per row, M in all, and the calls are, subscriber after subscriber in the order
  of match, that subscriber's handler on each event in the order of the rows: N times
  M calls.
\<close>

theorem eventHandler_calls:
  assumes "tableMap ev (tableId ev) = Some tm"
    and "getTriggers st (parentSchema tm @ ''.'' @ tableName tm) act = Inr trgs"
    and "\<forall>t \<in> set trgs. handler (heap st t) \<noteq> None"
  shows "if trgs = [] then eventHandler st es ev act = Inr ([], es)
         else \<exists>events es'.
           getManyEvents (length es) act (rows ev)
             (es @ [newEvent act (parentSchema tm @ ''.'' @ tableName tm) (bl_timestamp ev)])
             = (events, es')
           \<and> length events = length (rows ev)
           \<and> eventHandler st es ev act =
               Inr (concat (map (\<lambda>t. map (Pair (the (handler (heap st t)))) events) trgs), es')
           \<and> length (concat (map (\<lambda>t. map (Pair (the (handler (heap st t)))) events) trgs))
               = length trgs * length (rows ev)"
proof (cases "trgs = []")
  case True
  with assms(1,2) show ?thesis by (simp add: eventHandler_def)
next
  case False
  obtain events es' where g: "getManyEvents (length es) act (rows ev)
      (es @ [newEvent act (parentSchema tm @ ''.'' @ tableName tm) (bl_timestamp ev)]) = (events, es')"
    by (cases "getManyEvents (length es) act (rows ev)
      (es @ [newEvent act (parentSchema tm @ ''.'' @ tableName tm) (bl_timestamp ev)])") 
  then have len: "length events = length (rows ev)"
    using fst_getManyEvents_forEach [of "length es" act "rows ev" _ "[]"]
    by (simp add: getManyEvents_def) (metis fst_conv length_replicate)
  have "eventHandler st es ev act =
      Inr (concat (map (\<lambda>t. map (Pair (the (handler (heap st t)))) events) trgs), es')"
    using assms(1,2) False g triggers_for_calls [OF assms(3), of events]
    by (simp add: eventHandler_def getEventObject_def)
  with g len False show ?thesis
    by (simp add: length_concat_calls)
qed

text \<open>
  An insert of two rows into \<open>shop.orders\<close> with the four subscriptions of the example:
  the handler of \<open>*\<close> is called twice, then the handler of \<open>*.orders\<close> twice. With no
  subscription there is no call and no event object.
\<close>

theorem eventHandler_calls_witness:
  "tableMap ev_two_rows (tableId ev_two_rows) = Some \<lparr>parentSchema = ''shop'', tableName = ''orders''\<rparr>
   \<and> getTriggers st_shop ''shop.orders'' ''INSERT'' = Inr [0, 2]
   \<and> handler (heap st_shop 0) = Some 10 \<and> handler (heap st_shop 2) = Some 12
   \<and> fst (getManyEvents 0 ''INSERT'' (rows ev_two_rows) [newEvent ''INSERT'' ''shop.orders'' 7])
       = [0, 0]
   \<and> (\<exists>es'. eventHandler st_shop [] ev_two_rows ''INSERT''
         = Inr ([(10, 0), (10, 0), (12, 0), (12, 0)], es'))
   \<and> getTriggers (empty_registry heap_a_b) ''shop.orders'' ''INSERT'' = Inr []
   \<and> eventHandler (empty_registry heap_a_b) [] ev_two_rows ''INSERT'' = Inr ([], [])"
proof -
  have tm: "tableMap ev_two_rows (tableId ev_two_rows)
      = Some \<lparr>parentSchema = ''shop'', tableName = ''orders''\<rparr>"
    by (simp add: ev_two_rows_def)
  have g: "getTriggers st_shop ''shop.orders'' ''INSERT'' = Inr [0, 2]"
    by (simp add: st_shop_def getTriggers_def pathOptions_def trigger_on_def Let_def)
  have h: "handler (heap st_shop 0) = Some 10" "handler (heap st_shop 2) = Some 12"
    by (simp_all add: st_shop_def trigger_on_def)
  have p: "fst (getManyEvents 0 ''INSERT'' (rows ev_two_rows) [newEvent ''INSERT'' ''shop.orders'' 7])
       = [0, 0]"
    by (simp add: getManyEvents_def ev_two_rows_def)
  have g0: "getTriggers (empty_registry heap_a_b) ''shop.orders'' ''INSERT'' = Inr []"
    by (simp add: empty_registry_def getTriggers_def pathOptions_def Let_def)
  from eventHandler_calls [of ev_two_rows "\<lparr>parentSchema = ''shop'', tableName = ''orders''\<rparr>"
      st_shop "''INSERT''" "[0, 2]" "[]"] tm g h p
  have "\<exists>es'. eventHandler st_shop [] ev_two_rows ''INSERT''
         = Inr ([(10, 0), (10, 0), (12, 0), (12, 0)], es')"
    by (auto simp: ev_two_rows_def)
  moreover from eventHandler_calls [of ev_two_rows
      "\<lparr>parentSchema = ''shop'', tableName = ''orders''\<rparr>"
      "empty_registry heap_a_b" "''INSERT''" "[]" "[]"] tm g0
  have "eventHandler (empty_registry heap_a_b) [] ev_two_rows ''INSERT'' = Inr ([], [])"
    by simp
  ultimately show ?thesis
    using tm g h p g0 by simp
qed

end
